theory Spec2Isabelle
  imports Main "HOL-Library.Word" "HOL-Library.Multiset"
begin

section \<open>DNS messages\<close>

text \<open>
  The message types of the DNS library the program is written against: a question, a
  resource record with its header and its concrete kind, and a message with its four
  sections. A resource record is an interface value in the program; the concrete kinds
  that \<open>probe\<close> tells apart are \<open>A\<close> and \<open>AAAA\<close>, every other kind is \<open>OtherRR\<close>.
\<close>

type_synonym uint16 = "16 word"
type_synonym uint32 = "32 word"
type_synonym IP = "8 word list"

definition TypeA :: uint16 where
  "TypeA = 1"

definition TypeCNAME :: uint16 where
  "TypeCNAME = 5"

definition TypeAAAA :: uint16 where
  "TypeAAAA = 28"

definition ClassINET :: uint16 where
  "ClassINET = 1"

record Question =
  Name :: string
  Qtype :: uint16
  Qclass :: uint16

record RR_Header =
  Hdr_Name :: string
  Rrtype :: uint16
  Class :: uint16
  Ttl :: uint32

datatype RR =
    A RR_Header IP
  | AAAA RR_Header IP
  | OtherRR RR_Header string

fun Header :: "RR \<Rightarrow> RR_Header" where
  "Header (A h ip) = h"
| "Header (AAAA h ip) = h"
| "Header (OtherRR h d) = h"

record MsgHdr =
  Id :: uint16
  Response :: bool
  Opcode :: int
  Authoritative :: bool
  Truncated :: bool
  RecursionDesired :: bool
  RecursionAvailable :: bool
  Rcode :: int

record Msg =
  Hdr :: MsgHdr
  Question :: "Question list"
  Answer :: "RR list"
  Ns :: "RR list"
  Extra :: "RR list"

section \<open>Message store, errors and the Resolver capability\<close>

text \<open>
  Messages are passed by pointer and \<open>Resolve\<close> assigns to a field of the message it got
  from the wrapped resolver, so messages live in a store and the operations pass the
  store along. A pointer is an address; the answer of a resolver may be the nil pointer
  (\<open>None\<close>). The query pointer is taken non-nil.
\<close>

type_synonym msg_ptr = nat
type_synonym store = "msg_ptr \<Rightarrow> Msg"

datatype error =
    Error string
  | DeadlineExceeded

datatype panic =
    IndexOutOfRange
  | NilDereference

text \<open>
  A resolver gets the query pointer, the client information and the store, and returns
  the answer pointer, the error, and the store as it left it.
\<close>

type_synonym 'ci Resolver =
  "msg_ptr \<Rightarrow> 'ci \<Rightarrow> store \<Rightarrow> (msg_ptr option \<times> error option) \<times> store"

section \<open>FastestTCP\<close>

record FastestTCPOptions =
  Port :: int
  WaitAll :: bool

record 'ci FastestTCP =
  id :: string
  resolver :: "'ci Resolver"
  opt :: FastestTCPOptions
  port :: string

subsection \<open>The constructor\<close>

definition digit :: "nat \<Rightarrow> char" where
  "digit n = char_of (48 + n)"

function digits :: "nat \<Rightarrow> string" where
  "digits n = (if n < 10 then [digit n] else digits (n div 10) @ [digit (n mod 10)])"
  by pat_completeness auto
termination
  by (relation "measure (\<lambda>n. n)") auto

definition Itoa :: "int \<Rightarrow> string" where
  "Itoa i = (if i < 0 then CHR ''-'' # digits (nat (- i)) else digits (nat i))"

definition NewFastestTCP :: "string \<Rightarrow> 'ci Resolver \<Rightarrow> FastestTCPOptions \<Rightarrow> 'ci FastestTCP" where
  "NewFastestTCP i res opts =
     (let p = Itoa (Port opts);
          p = (if p = ''0'' then ''443'' else p)
      in \<lparr> id = i, resolver = res, opt = opts, port = p \<rparr>)"

subsection \<open>Probing\<close>

text \<open>
  What the network and the scheduler do is a parameter of the model. For the goroutine
  started for the \<open>i\<close>-th candidate, \<open>dial\<close> is the error of its connection attempt
  (\<open>None\<close> when the connection is established) for the network, the address and the port
  it dials, and \<open>ready_at\<close> is the time, in nanoseconds after the context was created, at
  which that goroutine has its result ready to send. The context expires at \<open>timeout\<close>.
\<close>

record probe_env =
  dial :: "nat \<Rightarrow> string \<Rightarrow> IP \<Rightarrow> string \<Rightarrow> error option"
  ready_at :: "nat \<Rightarrow> nat"

definition timeout :: nat where
  "timeout = 2 * 1000000000"

type_synonym tcpProbeResult = "error + RR"

text \<open>The body of one probe goroutine: the result it sends on the channel.\<close>

fun goroutine :: "'ci FastestTCP \<Rightarrow> probe_env \<Rightarrow> nat \<Rightarrow> RR \<Rightarrow> tcpProbeResult" where
  "goroutine r env i (A h ip) =
     (case dial env i ''tcp4'' ip (port r) of
        Some e \<Rightarrow> Inl e
      | None \<Rightarrow> Inr (A h ip))"
| "goroutine r env i (AAAA h ip) =
     (case dial env i ''tcp6'' ip (port r) of
        Some e \<Rightarrow> Inl e
      | None \<Rightarrow> Inr (AAAA h ip))"
| "goroutine r env i (OtherRR h d) = Inl (Error ''unexpected resource type'')"

text \<open>
  \<open>probe\<close> starts one goroutine per record and returns the channel: the results in the
  order they are sent, each with the time it is sent at. Results that are ready at the
  same time are taken in the order the goroutines were started.
\<close>

definition probe :: "'ci FastestTCP \<Rightarrow> probe_env \<Rightarrow> RR list \<Rightarrow> (nat \<times> tcpProbeResult) list" where
  "probe r env rrs =
     sort_key fst (map (\<lambda>(i, rr). (ready_at env i, goroutine r env i rr)) (enumerate 0 rrs))"

text \<open>
  \<open>probeFastest\<close> waits for one result or for the context: the first result sent, if it
  is sent before the context expires.
\<close>

definition probeFastest :: "'ci FastestTCP \<Rightarrow> probe_env \<Rightarrow> RR list \<Rightarrow> error + RR" where
  "probeFastest r env rrs =
     (case probe r env rrs of
        [] \<Rightarrow> Inl DeadlineExceeded
      | (t, res) # ch \<Rightarrow> if t < timeout then res else Inl DeadlineExceeded)"

text \<open>\<open>probeAll\<close> receives once per record; the loop counts the receives that are left.\<close>

fun probeAll_loop :: "nat \<Rightarrow> (nat \<times> tcpProbeResult) list \<Rightarrow> RR list \<Rightarrow> error + RR list" where
  "probeAll_loop 0 ch results = Inr results"
| "probeAll_loop (Suc n) [] results = Inl DeadlineExceeded"
| "probeAll_loop (Suc n) ((t, res) # ch) results =
     (if t < timeout then
        (case res of
           Inl e \<Rightarrow> Inl e
         | Inr rr \<Rightarrow> probeAll_loop n ch (results @ [rr]))
      else Inl DeadlineExceeded)"

definition probeAll :: "'ci FastestTCP \<Rightarrow> probe_env \<Rightarrow> RR list \<Rightarrow> error + RR list" where
  "probeAll r env rrs = probeAll_loop (length rrs) (probe r env rrs) []"

subsection \<open>Resolve\<close>

text \<open>
  What a call of \<open>Resolve\<close> returns: the answer pointer, the error, the store after the
  call, and the records for which a probe goroutine was started (empty when \<open>probe\<close> was
  not called). A call that panics returns nothing.
\<close>

record resolve_result =
  ret_msg :: "msg_ptr option"
  ret_err :: "error option"
  ret_store :: store
  launched :: "RR list"

datatype outcome =
    Panic panic
  | Return resolve_result

definition Resolve :: "'ci FastestTCP \<Rightarrow> probe_env \<Rightarrow> msg_ptr \<Rightarrow> 'ci \<Rightarrow> store \<Rightarrow> outcome" where
  "Resolve r env q ci s =
     (case resolver r q ci s of
        ((a, err), s1) \<Rightarrow>
          if err \<noteq> None then
            Return \<lparr> ret_msg = a, ret_err = err, ret_store = s1, launched = [] \<rparr>
          else
            (case Question (s1 q) of
               [] \<Rightarrow> Panic IndexOutOfRange
             | question # qs \<Rightarrow>
                 if Qtype question \<noteq> TypeA \<and> Qtype question \<noteq> TypeAAAA then
                   Return \<lparr> ret_msg = a, ret_err = None, ret_store = s1, launched = [] \<rparr>
                 else
                   (case a of
                      None \<Rightarrow> Panic NilDereference
                    | Some ap \<Rightarrow>
                        let ipRRs = filter (\<lambda>rr. Rrtype (Header rr) = Qtype question) (Answer (s1 ap))
                        in if length ipRRs < 2 then
                             Return \<lparr> ret_msg = a, ret_err = None, ret_store = s1, launched = [] \<rparr>
                           else if WaitAll (opt r) then
                             (case probeAll r env ipRRs of
                                Inl e \<Rightarrow>
                                  Return \<lparr> ret_msg = a, ret_err = None, ret_store = s1,
                                           launched = ipRRs \<rparr>
                              | Inr rrs \<Rightarrow>
                                  Return \<lparr> ret_msg = a, ret_err = None,
                                           ret_store = s1(ap := (s1 ap)\<lparr>Answer := rrs\<rparr>),
                                           launched = ipRRs \<rparr>)
                           else
                             (case probeFastest r env ipRRs of
                                Inl e \<Rightarrow>
                                  Return \<lparr> ret_msg = a, ret_err = None, ret_store = s1,
                                           launched = ipRRs \<rparr>
                              | Inr first \<Rightarrow>
                                  Return \<lparr> ret_msg = a, ret_err = None,
                                           ret_store = s1(ap := (s1 ap)\<lparr>Answer := [first]\<rparr>),
                                           launched = ipRRs \<rparr>))))"

section \<open>The blocklist capability and the domain blocklist\<close>

text \<open>
  \<open>BlocklistMatch\<close> is what a blocklist returns with a match: the list and the rule that
  matched. \<open>Match\<close> returns an address, names, the match record and whether the
  question matched.
\<close>

record BlocklistMatch =
  List :: string
  Rule :: string

type_synonym match_result = "IP option \<times> string list \<times> BlocklistMatch option \<times> bool"

text \<open>
  Modelled from the spec: the classification of a rule pattern (section 3, Rule Pattern).
  The domain blocklist itself is not among the source files; only its test and the
  capability it implements are.
\<close>

datatype rule_class =
    Exact
  | ExactAndSubdomains
  | SubdomainsOnly

text \<open>
  Modelled from the spec: the rule a trie node carries, its classification and the
  pattern it comes from (section 3, Domain Rule Trie).
\<close>

record rule =
  classification :: rule_class
  rule_id :: string

text \<open>
  Modelled from the spec: a node of the domain rule trie, with the rules attached to it
  and its children by label (section 3, Domain Rule Trie). A rule put on a node that has
  one already is kept beside it (section 4.1, Build).
\<close>

datatype node = Node (rules: "rule list") (children: "(string \<times> node) list")

text \<open>
  Modelled from the spec: names are normalised by removing the trailing dot
  (section 3, Question).
\<close>

definition strip_dot :: "string \<Rightarrow> string" where
  "strip_dot s = (if s \<noteq> [] \<and> last s = CHR ''.'' then butlast s else s)"

text \<open>
  Modelled from the spec: a name is the list of its labels, which the dots separate
  (section 3, Domain Rule Trie).
\<close>

fun split_labels :: "string \<Rightarrow> string list" where
  "split_labels [] = [[]]"
| "split_labels (c # cs) =
     (if c = CHR ''.'' then [] # split_labels cs
      else (case split_labels cs of
              [] \<Rightarrow> [[c]]
            | l # ls \<Rightarrow> (c # l) # ls))"

text \<open>
  Modelled from the spec: parsing a raw pattern (section 3, Rule Pattern). A leading
  \<open>*.\<close> gives a subdomains-only rule, a leading dot an exact-and-subdomains rule,
  anything else an exact rule; a wildcard anywhere in what remains is rejected.
\<close>

definition parse_rule :: "string \<Rightarrow> error + (rule_class \<times> string list)" where
  "parse_rule raw =
     (let s = strip_dot raw;
          cb = (if take 2 s = ''*.'' then (SubdomainsOnly, drop 2 s)
                else if take 1 s = ''.'' then (ExactAndSubdomains, drop 1 s)
                else (Exact, s))
      in if CHR ''*'' \<in> set (snd cb) then Inl (Error ''invalid rule pattern'')
         else Inr (fst cb, split_labels (snd cb)))"

text \<open>
  Modelled from the spec: the child of a node for a label, a fresh node when there is
  none (section 3, Domain Rule Trie).
\<close>

definition child :: "string \<Rightarrow> (string \<times> node) list \<Rightarrow> node" where
  "child l cs = (case map_of cs l of None \<Rightarrow> Node [] [] | Some n \<Rightarrow> n)"

text \<open>
  Modelled from the spec: putting a child under its label, in place of the child the
  label had, or after the other children when it had none (section 3, Domain Rule Trie).
\<close>

fun set_child :: "string \<Rightarrow> node \<Rightarrow> (string \<times> node) list \<Rightarrow> (string \<times> node) list" where
  "set_child l n [] = [(l, n)]"
| "set_child l n ((k, m) # cs) = (if k = l then (l, n) # cs else (k, m) # set_child l n cs)"

text \<open>
  Modelled from the spec: inserting a rule at the node its labels identify, the labels
  taken from the rightmost to the leftmost (section 4.1, Build).
\<close>

fun insert_rule :: "string list \<Rightarrow> rule \<Rightarrow> node \<Rightarrow> node" where
  "insert_rule [] r (Node rs cs) = Node (rs @ [r]) cs"
| "insert_rule (l # ls) r (Node rs cs) =
     Node rs (set_child l (insert_rule ls r (child l cs)) cs)"

text \<open>
  Modelled from the spec: building the trie from the raw patterns in order; the first
  malformed pattern aborts the build with a parse error (section 4.1, Build).
\<close>

fun build :: "string list \<Rightarrow> node \<Rightarrow> error + node" where
  "build [] n = Inr n"
| "build (raw # raws) n =
     (case parse_rule raw of
        Inl e \<Rightarrow> Inl e
      | Inr cl \<Rightarrow>
          build raws (insert_rule (rev (snd cl)) \<lparr> classification = fst cl, rule_id = raw \<rparr> n))"

text \<open>
  Modelled from the spec: walking the trie along the labels of a name, from the root,
  as far as nodes exist (section 4.1, Lookup). The result is the root followed by the
  nodes reached.
\<close>

fun walk :: "node \<Rightarrow> string list \<Rightarrow> node list" where
  "walk n [] = [n]"
| "walk n (l # ls) =
     n # (case map_of (children n) l of
            None \<Rightarrow> []
          | Some c \<Rightarrow> walk c ls)"

text \<open>
  Modelled from the spec: the first rule of a node with one of the given
  classifications (section 4.1, Lookup).
\<close>

definition carries :: "rule_class list \<Rightarrow> node \<Rightarrow> rule option" where
  "carries cls n = find (\<lambda>r. classification r \<in> set cls) (rules n)"

text \<open>
  Modelled from the spec: the first node of a list that carries a rule with one of the
  given classifications, and that rule (section 4.1, Lookup, step 2).
\<close>

fun first_carrying :: "rule_class list \<Rightarrow> node list \<Rightarrow> rule option" where
  "first_carrying cls [] = None"
| "first_carrying cls (n # ns) =
     (case carries cls n of
        Some r \<Rightarrow> Some r
      | None \<Rightarrow> first_carrying cls ns)"

text \<open>
  Modelled from the spec: the lookup (section 4.1, Lookup, steps 1, 2 and 5). If the
  node of the whole name exists and carries an exact or an exact-and-subdomains rule,
  that rule matches; otherwise the ancestors are scanned from the most specific to the
  least specific for an exact-and-subdomains or a subdomains-only rule.
\<close>

definition lookup :: "node \<Rightarrow> string list \<Rightarrow> rule option" where
  "lookup t ls =
     (let path = walk t (rev ls);
          whole = (length path = Suc (length ls))
      in case (if whole then carries [Exact, ExactAndSubdomains] (last path) else None) of
           Some r \<Rightarrow> Some r
         | None \<Rightarrow>
             first_carrying [ExactAndSubdomains, SubdomainsOnly]
               (rev (if whole then butlast path else path)))"

text \<open>
  Modelled from the spec: the rule loader, an opaque source of the current list of raw
  patterns (section 6, Rule Loader). The parameter is the state of the source when it
  is asked; a static loader gives the same list whatever the state.
\<close>

type_synonym 'w Loader = "'w \<Rightarrow> string list"

text \<open>
  Modelled from the spec: a static loader, which gives the same list whatever the state
  of the source (section 6, Rule Loader).
\<close>

definition NewStaticLoader :: "string list \<Rightarrow> 'w Loader" where
  "NewStaticLoader rs = (\<lambda>w. rs)"

text \<open>
  Modelled from the spec: the domain blocklist, which owns a trie and a list name and
  draws its rules from a loader (section 3, Domain Blocklist).
\<close>

record 'w DomainDB =
  name :: string
  root :: node
  loader :: "'w Loader"

text \<open>
  Modelled from the spec: a new domain blocklist, with a name and a loader and nothing
  loaded yet (section 3, Domain Blocklist).
\<close>

definition NewDomainDB :: "string \<Rightarrow> 'w Loader \<Rightarrow> 'w DomainDB" where
  "NewDomainDB n l = \<lparr> name = n, root = Node [] [], loader = l \<rparr>"

text \<open>
  Modelled from the spec: \<open>Match\<close> of the domain blocklist (section 4.1, Lookup, and
  section 6). No override address and no names; the match record names the list and the
  pattern of the rule that matched.
\<close>

definition Match :: "'w DomainDB \<Rightarrow> Question \<Rightarrow> match_result" where
  "Match db q =
     (case lookup (root db) (split_labels (strip_dot (Name q))) of
        None \<Rightarrow> (None, [], None, False)
      | Some r \<Rightarrow> (None, [], Some \<lparr> List = name db, Rule = rule_id r \<rparr>, True))"

text \<open>
  Modelled from the spec: \<open>Reload\<close> of the domain blocklist (section 4.1, Reload, and
  section 3). It builds a new trie from the loader's current output and returns a new
  instance, or the parse error. The first component of the result is the receiver as
  the call leaves it.
\<close>

definition Reload :: "'w DomainDB \<Rightarrow> 'w \<Rightarrow> 'w DomainDB \<times> (error + 'w DomainDB)" where
  "Reload db w =
     (db,
      case build (loader db w) (Node [] []) of
        Inl e \<Rightarrow> Inl e
      | Inr t \<Rightarrow> Inr \<lparr> name = name db, root = t, loader = loader db \<rparr>)"

section \<open>Reading an outcome\<close>

text \<open>The Answer section of the message at a pointer after a call, if the call returned.\<close>

definition answer_of :: "outcome \<Rightarrow> msg_ptr \<Rightarrow> RR list option" where
  "answer_of out p =
     (case out of
        Panic pn \<Rightarrow> None
      | Return res \<Rightarrow> Some (Answer (ret_store res p)))"

text \<open>Whether a result of \<open>Match\<close> is a match.\<close>

definition matched :: "match_result \<Rightarrow> bool" where
  "matched m = snd (snd (snd m))"

section \<open>Example values\<close>

text \<open>
  Concrete queries, records, resolvers and probe environments at which the theorems
  below are instantiated. The query is at address 0; the example upstream resolvers put
  their answer at address 1.
\<close>

definition example_question :: Question where
  "example_question = \<lparr> Name = ''example.com.'', Qtype = TypeA, Qclass = ClassINET \<rparr>"

definition example_mx_question :: Question where
  "example_mx_question = \<lparr> Name = ''example.com.'', Qtype = 15, Qclass = ClassINET \<rparr>"

definition example_query :: Msg where
  "example_query =
     \<lparr> Hdr = \<lparr> Id = 7, Response = False, Opcode = 0, Authoritative = False,
               Truncated = False, RecursionDesired = True, RecursionAvailable = False,
               Rcode = 0 \<rparr>,
       Question = [example_question], Answer = [], Ns = [], Extra = [] \<rparr>"

definition example_store :: store where
  "example_store = (\<lambda>p. example_query)"

definition example_a1 :: RR where
  "example_a1 =
     A \<lparr> Hdr_Name = ''example.com.'', Rrtype = TypeA, Class = ClassINET, Ttl = 300 \<rparr>
       [192, 0, 2, 1]"

definition example_a2 :: RR where
  "example_a2 =
     A \<lparr> Hdr_Name = ''example.com.'', Rrtype = TypeA, Class = ClassINET, Ttl = 300 \<rparr>
       [192, 0, 2, 2]"

definition example_cname :: RR where
  "example_cname =
     OtherRR \<lparr> Hdr_Name = ''example.com.'', Rrtype = TypeCNAME, Class = ClassINET, Ttl = 300 \<rparr>
       ''host.example.net.''"

definition example_upstream :: "RR list \<Rightarrow> unit Resolver" where
  "example_upstream rrs q ci s =
     ((Some 1, None),
      s(1 := (s q)\<lparr> Hdr := (Hdr (s q))\<lparr> Response := True \<rparr>, Answer := rrs \<rparr>))"

definition example_failing :: "unit Resolver" where
  "example_failing q ci s = ((Some 1, Some (Error ''upstream failed'')), s)"

definition example_echo :: "unit Resolver" where
  "example_echo q ci s = ((Some q, None), s)"

definition example_env :: probe_env where
  "example_env =
     \<lparr> dial = (\<lambda>i network ip p. None),
       ready_at = (\<lambda>i. if i = 0 then 30000000 else 10000000) \<rparr>"

definition example_env_refused :: probe_env where
  "example_env_refused =
     \<lparr> dial = (\<lambda>i network ip p. if i = 1 then Some (Error ''connection refused'') else None),
       ready_at = (\<lambda>i. if i = 0 then 30000000 else 10000000) \<rparr>"

definition example_env_slow :: probe_env where
  "example_env_slow =
     \<lparr> dial = (\<lambda>i network ip p. None),
       ready_at = (\<lambda>i. 3000000000) \<rparr>"

definition example_fastest :: "unit Resolver \<Rightarrow> unit FastestTCP" where
  "example_fastest res = NewFastestTCP ''fastest'' res \<lparr> Port = 0, WaitAll = False \<rparr>"

definition example_waitall :: "unit Resolver \<Rightarrow> unit FastestTCP" where
  "example_waitall res = NewFastestTCP ''waitall'' res \<lparr> Port = 0, WaitAll = True \<rparr>"

definition example_rules :: "string list" where
  "example_rules =
     [''domain1.com.'', ''.domain2.com.'', ''x.domain2.com'', ''*.domain3.com'',
      ''x.x.domain3.com'', ''domain4.com'', ''.domain4.com'']"

definition example_db :: "unit DomainDB" where
  "example_db = NewDomainDB ''testlist'' (NewStaticLoader example_rules)"

definition example_name_question :: "string \<Rightarrow> Question" where
  "example_name_question n = \<lparr> Name = n, Qtype = TypeA, Qclass = ClassINET \<rparr>"

text \<open>
  A rule source that is refreshed: in state 0 it holds the example rules, in state 1 a
  pattern with a wildcard that is not leading, in any later state a wildcard that is not
  followed by a dot.
\<close>

definition example_source :: "nat Loader" where
  "example_source w =
     (if w = 0 then example_rules
      else if w = 1 then [''domain1.com.'', ''sub.*.com'']
      else [''*domain.com''])"

section \<open>Upstream errors\<close>

text \<open>
  C3. If the wrapped resolver returns an error, \<open>Resolve\<close> returns that error together
  with the answer pointer the wrapped resolver returned, leaves the store as the wrapped
  resolver left it, and starts no probe.
\<close>

theorem Resolve_upstream_error:
  assumes "resolver r q ci s = ((a, Some e), s1)"
  shows "Resolve r env q ci s =
           Return \<lparr> ret_msg = a, ret_err = Some e, ret_store = s1, launched = [] \<rparr>"
  using assms by (simp add: Resolve_def)

theorem Resolve_upstream_error_witness:
  "resolver (example_fastest example_failing) 0 () example_store =
     ((Some 1, Some (Error ''upstream failed'')), example_store)
   \<and> Resolve (example_fastest example_failing) example_env 0 () example_store =
       Return \<lparr> ret_msg = Some 1, ret_err = Some (Error ''upstream failed''),
                ret_store = example_store, launched = [] \<rparr>"
proof -
  have h: "resolver (example_fastest example_failing) 0 () example_store =
     ((Some 1, Some (Error ''upstream failed'')), example_store)"
    by (simp add: example_fastest_def NewFastestTCP_def example_failing_def Let_def)
  from Resolve_upstream_error [OF h] h show ?thesis by simp
qed

section \<open>Unfolding the example values\<close>

lemmas example_defs =
  example_question_def example_mx_question_def example_query_def example_store_def
  example_a1_def example_a2_def example_cname_def example_upstream_def example_failing_def
  example_echo_def example_env_def example_env_refused_def example_env_slow_def
  example_fastest_def example_waitall_def NewFastestTCP_def TypeA_def TypeAAAA_def
  TypeCNAME_def ClassINET_def timeout_def

section \<open>Skipped probing\<close>

text \<open>
  C6. If the first question of the query is neither an A nor an AAAA question, \<open>Resolve\<close>
  returns the answer pointer of the wrapped resolver with no error, leaves the store as
  the wrapped resolver left it, and starts no probe.
\<close>

theorem Resolve_non_address_question:
  assumes "resolver r q ci s = ((a, None), s1)"
    and "Question (s1 q) = question # qs"
    and "Qtype question \<noteq> TypeA" and "Qtype question \<noteq> TypeAAAA"
  shows "Resolve r env q ci s =
           Return \<lparr> ret_msg = a, ret_err = None, ret_store = s1, launched = [] \<rparr>"
  using assms by (simp add: Resolve_def)

theorem Resolve_non_address_question_witness:
  "Resolve (example_waitall (example_upstream [example_a1, example_a2])) example_env 0 ()
      (example_store(0 := example_query\<lparr>Question := [example_mx_question]\<rparr>)) =
     Return \<lparr> ret_msg = Some 1, ret_err = None,
              ret_store =
                snd (example_upstream [example_a1, example_a2] 0 ()
                       (example_store(0 := example_query\<lparr>Question := [example_mx_question]\<rparr>))),
              launched = [] \<rparr>"
proof -
  let ?up = "example_upstream [example_a1, example_a2]"
  let ?s = "example_store(0 := example_query\<lparr>Question := [example_mx_question]\<rparr>)"
  have up: "resolver (example_waitall ?up) 0 () ?s = ((Some 1, None), snd (?up 0 () ?s))"
    by (simp add: example_defs Let_def)
  have qu: "Question (snd (?up 0 () ?s) 0) = example_mx_question # []"
    by (simp add: example_defs)
  have t4: "Qtype example_mx_question \<noteq> TypeA"
    by (simp add: example_defs)
  have t6: "Qtype example_mx_question \<noteq> TypeAAAA"
    by (simp add: example_defs)
  from Resolve_non_address_question [OF up qu t4 t6] show ?thesis .
qed

text \<open>
  C7. If the first question is an A or an AAAA question and the answer of the wrapped
  resolver has fewer than two records of the question's type, \<open>Resolve\<close> returns the
  answer pointer with no error, leaves the store as the wrapped resolver left it, and
  starts no probe. The wrapped resolver has returned a message: with a nil answer pointer
  there is no Answer section to count in.
\<close>

theorem Resolve_fewer_than_two_candidates:
  assumes "resolver r q ci s = ((Some ap, None), s1)"
    and "Question (s1 q) = question # qs"
    and "Qtype question = TypeA \<or> Qtype question = TypeAAAA"
    and "length (filter (\<lambda>rr. Rrtype (Header rr) = Qtype question) (Answer (s1 ap))) < 2"
  shows "Resolve r env q ci s =
           Return \<lparr> ret_msg = Some ap, ret_err = None, ret_store = s1, launched = [] \<rparr>"
  using assms by (auto simp add: Resolve_def Let_def)

theorem Resolve_fewer_than_two_candidates_witness:
  "Resolve (example_fastest (example_upstream [example_cname, example_a1])) example_env 0 ()
      example_store =
     Return \<lparr> ret_msg = Some 1, ret_err = None,
              ret_store = snd (example_upstream [example_cname, example_a1] 0 () example_store),
              launched = [] \<rparr>"
proof -
  let ?up = "example_upstream [example_cname, example_a1]"
  let ?s1 = "snd (?up 0 () example_store)"
  have up: "resolver (example_fastest ?up) 0 () example_store = ((Some 1, None), ?s1)"
    by (simp add: example_defs Let_def)
  have qu: "Question (?s1 0) = example_question # []"
    by (simp add: example_defs)
  have ty: "Qtype example_question = TypeA \<or> Qtype example_question = TypeAAAA"
    by (simp add: example_defs)
  have few: "length (filter (\<lambda>rr. Rrtype (Header rr) = Qtype example_question)
                       (Answer (?s1 1))) < 2"
    by (simp add: example_defs)
  from Resolve_fewer_than_two_candidates [OF up qu ty few] show ?thesis .
qed

section \<open>The first question\<close>

text \<open>
  C9. \<open>Resolve\<close> reads the first question of the query once the wrapped resolver has
  returned without error, and does not check that there is one: the call panics with an
  index out of range exactly when the wrapped resolver returned no error and the question
  list of the query, as the wrapped resolver left it, is empty. With a question in the
  list that panic cannot happen.
\<close>

theorem Resolve_index_panic_iff:
  "Resolve r env q ci s = Panic IndexOutOfRange \<longleftrightarrow>
     snd (fst (resolver r q ci s)) = None \<and> Question (snd (resolver r q ci s) q) = []"
  by (auto simp add: Resolve_def Let_def
      split: prod.splits list.splits option.splits sum.splits if_splits)

theorem Resolve_index_panic_iff_witness:
  "Resolve (example_fastest (example_upstream [example_a1, example_a2])) example_env 0 ()
      (example_store(0 := example_query\<lparr>Question := []\<rparr>)) = Panic IndexOutOfRange
   \<and> Resolve (example_fastest (example_upstream [example_a1, example_a2])) example_env 0 ()
      example_store \<noteq> Panic IndexOutOfRange"
proof -
  let ?r = "example_fastest (example_upstream [example_a1, example_a2])"
  let ?s = "example_store(0 := example_query\<lparr>Question := []\<rparr>)"
  have a: "snd (fst (resolver ?r 0 () ?s)) = None \<and> Question (snd (resolver ?r 0 () ?s) 0) = []"
    by (simp add: example_defs Let_def)
  have b: "\<not> (snd (fst (resolver ?r 0 () example_store)) = None
             \<and> Question (snd (resolver ?r 0 () example_store) 0) = [])"
    by (simp add: example_defs Let_def)
  from a Resolve_index_panic_iff [of ?r example_env 0 "()" ?s]
  have A: "Resolve ?r example_env 0 () ?s = Panic IndexOutOfRange" by blast
  from b Resolve_index_panic_iff [of ?r example_env 0 "()" example_store]
  have B: "Resolve ?r example_env 0 () example_store \<noteq> Panic IndexOutOfRange" by blast
  from A B show ?thesis by blast
qed

section \<open>The order of the probe results\<close>

lemma goroutine_Inr: "goroutine r env i rr = Inr rr' \<Longrightarrow> rr' = rr"
  by (cases rr) (auto split: option.splits)

lemma hd_sort_key_strict_min:
  assumes "x \<in> set xs" and "\<forall>y\<in>set xs. y = x \<or> f x < f y"
  shows "\<exists>ys. sort_key f xs = x # ys"
proof -
  from assms(1) have ne: "sort_key f xs \<noteq> []" by (metis length_sort length_0_conv empty_iff empty_set)
  then obtain z zs where zs: "sort_key f xs = z # zs" by (cases "sort_key f xs") auto
  have "sorted (map f (sort_key f xs))" by (rule sorted_sort_key)
  with zs have le: "\<forall>y\<in>set zs. f z \<le> f y" by simp
  have setz: "set (z # zs) = set xs" using zs by (metis set_sort)
  then have "z \<in> set xs" by auto
  with assms(2) have "z = x \<or> f x < f z" by blast
  moreover have "f z \<le> f x"
  proof -
    from assms(1) setz have "x = z \<or> x \<in> set zs" by auto
    with le show ?thesis by auto
  qed
  ultimately have "z = x" by auto
  with zs show ?thesis by blast
qed

lemma enumerate_nth_mem:
  "i < length rrs \<Longrightarrow> (i, rrs ! i) \<in> set (enumerate 0 rrs)"
  by (simp add: in_set_enumerate_eq)

lemma probe_first:
  assumes "i < length rrs"
    and "\<forall>j<length rrs. j \<noteq> i \<longrightarrow> ready_at env i < ready_at env j"
  shows "\<exists>ch. probe r env rrs = (ready_at env i, goroutine r env i (rrs ! i)) # ch"
  unfolding probe_def
proof (rule hd_sort_key_strict_min)
  show "(ready_at env i, goroutine r env i (rrs ! i))
      \<in> set (map (\<lambda>(i, rr). (ready_at env i, goroutine r env i rr)) (enumerate 0 rrs))"
    using enumerate_nth_mem [OF assms(1)] by force
  show "\<forall>y\<in>set (map (\<lambda>(i, rr). (ready_at env i, goroutine r env i rr)) (enumerate 0 rrs)).
       y = (ready_at env i, goroutine r env i (rrs ! i)) \<or>
       fst (ready_at env i, goroutine r env i (rrs ! i)) < fst y"
    using assms(2) by (auto simp: in_set_enumerate_eq)
qed

lemma probe_all_late:
  assumes "\<forall>j<length rrs. timeout \<le> ready_at env j"
  shows "\<forall>x\<in>set (probe r env rrs). timeout \<le> fst x"
  using assms by (auto simp: probe_def in_set_enumerate_eq)

lemma probeFastest_all_late:
  assumes "\<forall>j<length rrs. timeout \<le> ready_at env j"
  shows "probeFastest r env rrs = Inl DeadlineExceeded"
proof (cases "probe r env rrs")
  case Nil
  then show ?thesis by (simp add: probeFastest_def)
next
  case (Cons x ch)
  with probe_all_late [OF assms, of r] have "timeout \<le> fst x" by simp
  with Cons show ?thesis by (cases x) (simp add: probeFastest_def)
qed

section \<open>First-to-respond mode\<close>

text \<open>
  C4. With \<open>WaitAll\<close> off and at least two records of the question's type in the answer:
  if the probe of candidate \<open>i\<close> is ready strictly before every other, is ready before
  the context expires and succeeded, \<open>Resolve\<close> returns the answer with its Answer
  section replaced by that one record; if that probe failed, or if no probe is ready
  before the context expires, \<open>Resolve\<close> returns the answer as the wrapped resolver left
  it. The error returned is nil in each case.
\<close>

theorem Resolve_first_to_respond:
  assumes up: "resolver r q ci s = ((Some ap, None), s1)"
    and qu: "Question (s1 q) = question # qs"
    and ty: "Qtype question = TypeA \<or> Qtype question = TypeAAAA"
    and cands: "ipRRs = filter (\<lambda>rr. Rrtype (Header rr) = Qtype question) (Answer (s1 ap))"
    and two: "2 \<le> length ipRRs"
    and mode: "\<not> WaitAll (opt r)"
  shows "(i < length ipRRs \<and> (\<forall>j<length ipRRs. j \<noteq> i \<longrightarrow> ready_at env i < ready_at env j)
            \<and> ready_at env i < timeout \<and> goroutine r env i (ipRRs ! i) = Inr rr
          \<longrightarrow> rr = ipRRs ! i
              \<and> Resolve r env q ci s =
                  Return \<lparr> ret_msg = Some ap, ret_err = None,
                           ret_store = s1(ap := (s1 ap)\<lparr>Answer := [rr]\<rparr>),
                           launched = ipRRs \<rparr>)
       \<and> (i < length ipRRs \<and> (\<forall>j<length ipRRs. j \<noteq> i \<longrightarrow> ready_at env i < ready_at env j)
            \<and> goroutine r env i (ipRRs ! i) = Inl e
          \<longrightarrow> Resolve r env q ci s =
                Return \<lparr> ret_msg = Some ap, ret_err = None, ret_store = s1, launched = ipRRs \<rparr>)
       \<and> ((\<forall>j<length ipRRs. timeout \<le> ready_at env j)
          \<longrightarrow> Resolve r env q ci s =
                Return \<lparr> ret_msg = Some ap, ret_err = None, ret_store = s1, launched = ipRRs \<rparr>)"
proof -
  have R: "Resolve r env q ci s =
      (case probeFastest r env ipRRs of
         Inl e \<Rightarrow> Return \<lparr> ret_msg = Some ap, ret_err = None, ret_store = s1, launched = ipRRs \<rparr>
       | Inr first \<Rightarrow> Return \<lparr> ret_msg = Some ap, ret_err = None,
                                ret_store = s1(ap := (s1 ap)\<lparr>Answer := [first]\<rparr>),
                                launched = ipRRs \<rparr>)"
    using up qu ty two mode cands by (auto simp add: Resolve_def Let_def)
  have first: "probeFastest r env ipRRs =
        (if ready_at env i < timeout then goroutine r env i (ipRRs ! i) else Inl DeadlineExceeded)"
    if "i < length ipRRs" "\<forall>j<length ipRRs. j \<noteq> i \<longrightarrow> ready_at env i < ready_at env j"
  proof -
    from probe_first [OF that, of r] obtain ch where
      "probe r env ipRRs = (ready_at env i, goroutine r env i (ipRRs ! i)) # ch" by blast
    then show ?thesis by (simp add: probeFastest_def)
  qed
  have c1: "rr = ipRRs ! i \<and> Resolve r env q ci s =
                  Return \<lparr> ret_msg = Some ap, ret_err = None,
                           ret_store = s1(ap := (s1 ap)\<lparr>Answer := [rr]\<rparr>),
                           launched = ipRRs \<rparr>"
    if "i < length ipRRs" "\<forall>j<length ipRRs. j \<noteq> i \<longrightarrow> ready_at env i < ready_at env j"
      "ready_at env i < timeout" "goroutine r env i (ipRRs ! i) = Inr rr"
    using R first [OF that(1,2)] that(3,4) goroutine_Inr [OF that(4)] by simp
  have c2: "Resolve r env q ci s =
                Return \<lparr> ret_msg = Some ap, ret_err = None, ret_store = s1, launched = ipRRs \<rparr>"
    if "i < length ipRRs" "\<forall>j<length ipRRs. j \<noteq> i \<longrightarrow> ready_at env i < ready_at env j"
      "goroutine r env i (ipRRs ! i) = Inl e"
    using R first [OF that(1,2)] that(3) by simp
  have c3: "Resolve r env q ci s =
                Return \<lparr> ret_msg = Some ap, ret_err = None, ret_store = s1, launched = ipRRs \<rparr>"
    if "\<forall>j<length ipRRs. timeout \<le> ready_at env j"
    using R probeFastest_all_late [OF that, of r] by simp
  from c1 c2 c3 show ?thesis by blast
qed

theorem Resolve_first_to_respond_witness:
  "Resolve (example_fastest (example_upstream [example_cname, example_a1, example_a2]))
      example_env 0 () example_store =
     Return \<lparr> ret_msg = Some 1, ret_err = None,
              ret_store =
                (snd (example_upstream [example_cname, example_a1, example_a2] 0 () example_store))
                  (1 := (snd (example_upstream [example_cname, example_a1, example_a2] 0 ()
                           example_store) 1)\<lparr>Answer := [example_a2]\<rparr>),
              launched = [example_a1, example_a2] \<rparr>
   \<and> Resolve (example_fastest (example_upstream [example_cname, example_a1, example_a2]))
      example_env_refused 0 () example_store =
     Return \<lparr> ret_msg = Some 1, ret_err = None,
              ret_store =
                snd (example_upstream [example_cname, example_a1, example_a2] 0 () example_store),
              launched = [example_a1, example_a2] \<rparr>
   \<and> Resolve (example_fastest (example_upstream [example_cname, example_a1, example_a2]))
      example_env_slow 0 () example_store =
     Return \<lparr> ret_msg = Some 1, ret_err = None,
              ret_store =
                snd (example_upstream [example_cname, example_a1, example_a2] 0 () example_store),
              launched = [example_a1, example_a2] \<rparr>"
proof -
  let ?up = "example_upstream [example_cname, example_a1, example_a2]"
  let ?r = "example_fastest ?up"
  let ?s1 = "snd (?up 0 () example_store)"
  have up: "resolver ?r 0 () example_store = ((Some 1, None), ?s1)"
    by (simp add: example_defs Let_def)
  have qu: "Question (?s1 0) = example_question # []"
    by (simp add: example_defs)
  have ty: "Qtype example_question = TypeA \<or> Qtype example_question = TypeAAAA"
    by (simp add: example_defs)
  have cands: "[example_a1, example_a2] =
      filter (\<lambda>rr. Rrtype (Header rr) = Qtype example_question) (Answer (?s1 1))"
    by (simp add: example_defs)
  have two: "2 \<le> length [example_a1, example_a2]" by simp
  have mode: "\<not> WaitAll (opt ?r)" by (simp add: example_defs Let_def)
  note T = Resolve_first_to_respond [OF up qu ty cands two mode]
  have a: "(1::nat) < length [example_a1, example_a2] \<and>
      (\<forall>j<length [example_a1, example_a2]. j \<noteq> 1 \<longrightarrow> ready_at example_env 1 < ready_at example_env j)
      \<and> ready_at example_env 1 < timeout
      \<and> goroutine ?r example_env 1 ([example_a1, example_a2] ! 1) = Inr example_a2"
    by (simp add: example_defs)
  have b: "(1::nat) < length [example_a1, example_a2] \<and>
      (\<forall>j<length [example_a1, example_a2]. j \<noteq> 1 \<longrightarrow>
          ready_at example_env_refused 1 < ready_at example_env_refused j)
      \<and> goroutine ?r example_env_refused 1 ([example_a1, example_a2] ! 1) =
          Inl (Error ''connection refused'')"
    by (simp add: example_defs)
  have c: "\<forall>j<length [example_a1, example_a2]. timeout \<le> ready_at example_env_slow j"
    by (simp add: example_defs)
  from T [of 1 example_env example_a2] a
  have A: "Resolve ?r example_env 0 () example_store =
     Return \<lparr> ret_msg = Some 1, ret_err = None,
              ret_store = ?s1(1 := (?s1 1)\<lparr>Answer := [example_a2]\<rparr>),
              launched = [example_a1, example_a2] \<rparr>" by blast
  from T [of 1 example_env_refused _ "Error ''connection refused''"] b
  have B: "Resolve ?r example_env_refused 0 () example_store =
     Return \<lparr> ret_msg = Some 1, ret_err = None, ret_store = ?s1,
              launched = [example_a1, example_a2] \<rparr>" by blast
  from T [of _ example_env_slow] c
  have C: "Resolve ?r example_env_slow 0 () example_store =
     Return \<lparr> ret_msg = Some 1, ret_err = None, ret_store = ?s1,
              launched = [example_a1, example_a2] \<rparr>" by blast
  from A B C show ?thesis by blast
qed

section \<open>Receiving every result\<close>

lemma insort_key_map:
  "insort_key f (g x) (map g xs) = map g (insort_key (\<lambda>y. f (g y)) x xs)"
  by (induction xs) auto

lemma sort_key_map:
  "sort_key f (map g xs) = map g (sort_key (\<lambda>y. f (g y)) xs)"
  by (induction xs) (auto simp: insort_key_map)

lemma enumerate_as_map:
  "enumerate 0 rrs = map (\<lambda>i. (i, rrs ! i)) [0..<length rrs]"
proof (rule nth_equalityI)
  show "length (enumerate 0 rrs) = length (map (\<lambda>i. (i, rrs ! i)) [0..<length rrs])"
    by simp
next
  fix i
  assume "i < length (enumerate 0 rrs)"
  then show "enumerate 0 rrs ! i = map (\<lambda>i. (i, rrs ! i)) [0..<length rrs] ! i"
    by (simp add: nth_enumerate_eq)
qed

lemma probe_as_map:
  "probe r env rrs =
     map (\<lambda>i. (ready_at env i, goroutine r env i (rrs ! i)))
       (sort_key (ready_at env) [0..<length rrs])"
  by (simp add: probe_def enumerate_as_map sort_key_map comp_def)

lemma probeAll_loop_fail:
  assumes "length ch \<le> n"
    and "\<exists>x\<in>set ch. timeout \<le> fst x \<or> (\<exists>e. snd x = Inl e)"
  shows "\<exists>e. probeAll_loop n ch acc = Inl e"
  using assms
proof (induction ch arbitrary: n acc)
  case Nil
  then show ?case by simp
next
  case (Cons x ch)
  then obtain m where n: "n = Suc m" by (cases n) auto
  obtain t res where x: "x = (t, res)" by (cases x)
  show ?case
  proof (cases "t < timeout")
    case False
    with n x show ?thesis by simp
  next
    case True
    show ?thesis
    proof (cases res)
      case (Inl e)
      with n x True show ?thesis by simp
    next
      case (Inr rr)
      with Cons.prems x True
      have ex: "\<exists>y\<in>set ch. timeout \<le> fst y \<or> (\<exists>e. snd y = Inl e)" by auto
      from Cons.prems n have len: "length ch \<le> m" by simp
      from Cons.IH [OF len ex]
      have "\<exists>e. probeAll_loop m ch (acc @ [rr]) = Inl e" .
      with n x True Inr show ?thesis by simp
    qed
  qed
qed

lemma probeAll_loop_ok:
  assumes "\<forall>i\<in>set is. ready_at env i < timeout \<and> goroutine r env i (rrs ! i) = Inr (rrs ! i)"
  shows "probeAll_loop (length is)
           (map (\<lambda>i. (ready_at env i, goroutine r env i (rrs ! i))) is) acc =
         Inr (acc @ map (\<lambda>i. rrs ! i) is)"
  using assms by (induction "is" arbitrary: acc) auto

lemma probeAll_fail:
  assumes "i < length rrs"
    and "timeout \<le> ready_at env i \<or> (\<exists>e. goroutine r env i (rrs ! i) = Inl e)"
  shows "\<exists>e. probeAll r env rrs = Inl e"
  unfolding probeAll_def
proof (rule probeAll_loop_fail)
  show "length (probe r env rrs) \<le> length rrs"
    by (simp add: probe_as_map)
  have "(ready_at env i, goroutine r env i (rrs ! i)) \<in> set (probe r env rrs)"
    using assms(1) by (simp add: probe_as_map)
  with assms(2) show "\<exists>x\<in>set (probe r env rrs). timeout \<le> fst x \<or> (\<exists>e. snd x = Inl e)"
    by force
qed


lemma probeAll_ok:
  assumes "\<forall>i<length rrs. ready_at env i < timeout \<and> (\<exists>rr. goroutine r env i (rrs ! i) = Inr rr)"
  shows "probeAll r env rrs =
           Inr (map (\<lambda>i. rrs ! i) (sort_key (ready_at env) [0..<length rrs]))"
proof -
  have "\<forall>i\<in>set (sort_key (ready_at env) [0..<length rrs]).
          ready_at env i < timeout \<and> goroutine r env i (rrs ! i) = Inr (rrs ! i)"
    using assms goroutine_Inr by fastforce
  from probeAll_loop_ok [OF this, of "[]"] show ?thesis
    by (simp add: probeAll_def probe_as_map)
qed

lemma mset_reordered:
  "mset (map (\<lambda>i. rrs ! i) (sort_key f [0..<length rrs])) = mset rrs"
proof -
  have "mset (map (\<lambda>i. rrs ! i) (sort_key f [0..<length rrs])) =
        image_mset (\<lambda>i. rrs ! i) (mset (sort_key f [0..<length rrs]))" by simp
  also have "\<dots> = image_mset (\<lambda>i. rrs ! i) (mset [0..<length rrs])" by simp
  also have "\<dots> = mset (map (\<lambda>i. rrs ! i) [0..<length rrs])" by simp
  also have "\<dots> = mset rrs" by (simp add: map_nth)
  finally show ?thesis .
qed

section \<open>Wait-for-all mode\<close>

text \<open>
  C5. With \<open>WaitAll\<close> on and at least two records of the question's type in the answer:
  if some probe failed or is not ready before the context expires, \<open>Resolve\<close> returns
  the answer as the wrapped resolver left it, with a nil error; if every probe succeeded
  before the context expires, \<open>Resolve\<close> replaces the Answer section by the candidates
  in the order their probes were ready, which is all the candidates, reordered by
  ascending time.
\<close>

theorem Resolve_wait_for_all:
  assumes up: "resolver r q ci s = ((Some ap, None), s1)"
    and qu: "Question (s1 q) = question # qs"
    and ty: "Qtype question = TypeA \<or> Qtype question = TypeAAAA"
    and cands: "ipRRs = filter (\<lambda>rr. Rrtype (Header rr) = Qtype question) (Answer (s1 ap))"
    and two: "2 \<le> length ipRRs"
    and mode: "WaitAll (opt r)"
    and order: "order = sort_key (ready_at env) [0..<length ipRRs]"
  shows "((\<exists>i<length ipRRs. timeout \<le> ready_at env i
                              \<or> (\<exists>e. goroutine r env i (ipRRs ! i) = Inl e))
          \<longrightarrow> Resolve r env q ci s =
                Return \<lparr> ret_msg = Some ap, ret_err = None, ret_store = s1, launched = ipRRs \<rparr>)
       \<and> ((\<forall>i<length ipRRs. ready_at env i < timeout
                              \<and> (\<exists>rr. goroutine r env i (ipRRs ! i) = Inr rr))
          \<longrightarrow> Resolve r env q ci s =
                Return \<lparr> ret_msg = Some ap, ret_err = None,
                         ret_store = s1(ap := (s1 ap)\<lparr>Answer := map (\<lambda>i. ipRRs ! i) order\<rparr>),
                         launched = ipRRs \<rparr>
              \<and> mset (map (\<lambda>i. ipRRs ! i) order) = mset ipRRs
              \<and> sorted (map (ready_at env) order))"
proof -
  have R: "Resolve r env q ci s =
      (case probeAll r env ipRRs of
         Inl e \<Rightarrow> Return \<lparr> ret_msg = Some ap, ret_err = None, ret_store = s1, launched = ipRRs \<rparr>
       | Inr rrs \<Rightarrow> Return \<lparr> ret_msg = Some ap, ret_err = None,
                              ret_store = s1(ap := (s1 ap)\<lparr>Answer := rrs\<rparr>),
                              launched = ipRRs \<rparr>)"
    using up qu ty two mode cands by (auto simp add: Resolve_def Let_def)
  have c1: "Resolve r env q ci s =
                Return \<lparr> ret_msg = Some ap, ret_err = None, ret_store = s1, launched = ipRRs \<rparr>"
    if "\<exists>i<length ipRRs. timeout \<le> ready_at env i
                              \<or> (\<exists>e. goroutine r env i (ipRRs ! i) = Inl e)"
  proof -
    from that obtain i where "i < length ipRRs"
      "timeout \<le> ready_at env i \<or> (\<exists>e. goroutine r env i (ipRRs ! i) = Inl e)" by blast
    from probeAll_fail [OF this] obtain e where "probeAll r env ipRRs = Inl e" by blast
    with R show ?thesis by simp
  qed
  have c2: "Resolve r env q ci s =
                Return \<lparr> ret_msg = Some ap, ret_err = None,
                         ret_store = s1(ap := (s1 ap)\<lparr>Answer := map (\<lambda>i. ipRRs ! i) order\<rparr>),
                         launched = ipRRs \<rparr>"
    if "\<forall>i<length ipRRs. ready_at env i < timeout
                              \<and> (\<exists>rr. goroutine r env i (ipRRs ! i) = Inr rr)"
    using R probeAll_ok [OF that] order by simp
  have c3: "mset (map (\<lambda>i. ipRRs ! i) order) = mset ipRRs"
    unfolding order by (rule mset_reordered)
  have c4: "sorted (map (ready_at env) order)"
    unfolding order by (rule sorted_sort_key)
  from c1 c2 c3 c4 show ?thesis by blast
qed

theorem Resolve_wait_for_all_witness:
  "Resolve (example_waitall (example_upstream [example_cname, example_a1, example_a2]))
      example_env 0 () example_store =
     Return \<lparr> ret_msg = Some 1, ret_err = None,
              ret_store =
                (snd (example_upstream [example_cname, example_a1, example_a2] 0 () example_store))
                  (1 := (snd (example_upstream [example_cname, example_a1, example_a2] 0 ()
                           example_store) 1)\<lparr>Answer := [example_a2, example_a1]\<rparr>),
              launched = [example_a1, example_a2] \<rparr>
   \<and> Resolve (example_waitall (example_upstream [example_cname, example_a1, example_a2]))
      example_env_refused 0 () example_store =
     Return \<lparr> ret_msg = Some 1, ret_err = None,
              ret_store =
                snd (example_upstream [example_cname, example_a1, example_a2] 0 () example_store),
              launched = [example_a1, example_a2] \<rparr>
   \<and> Resolve (example_waitall (example_upstream [example_cname, example_a1, example_a2]))
      example_env_slow 0 () example_store =
     Return \<lparr> ret_msg = Some 1, ret_err = None,
              ret_store =
                snd (example_upstream [example_cname, example_a1, example_a2] 0 () example_store),
              launched = [example_a1, example_a2] \<rparr>"
proof -
  let ?up = "example_upstream [example_cname, example_a1, example_a2]"
  let ?r = "example_waitall ?up"
  let ?s1 = "snd (?up 0 () example_store)"
  have up: "resolver ?r 0 () example_store = ((Some 1, None), ?s1)"
    by (simp add: example_defs Let_def)
  have qu: "Question (?s1 0) = example_question # []"
    by (simp add: example_defs)
  have ty: "Qtype example_question = TypeA \<or> Qtype example_question = TypeAAAA"
    by (simp add: example_defs)
  have cands: "[example_a1, example_a2] =
      filter (\<lambda>rr. Rrtype (Header rr) = Qtype example_question) (Answer (?s1 1))"
    by (simp add: example_defs)
  have two: "2 \<le> length [example_a1, example_a2]" by simp
  have mode: "WaitAll (opt ?r)" by (simp add: example_defs Let_def)
  have upt2: "[0..<length [example_a1, example_a2]] = [0, 1]"
    by (simp add: upt_rec)
  have order: "[1, 0] = sort_key (ready_at example_env) [0..<length [example_a1, example_a2]]"
    unfolding upt2 by (simp add: example_defs)
  have order_r: "[1, 0] =
      sort_key (ready_at example_env_refused) [0..<length [example_a1, example_a2]]"
    unfolding upt2 by (simp add: example_defs)
  have order_s: "[0, 1] =
      sort_key (ready_at example_env_slow) [0..<length [example_a1, example_a2]]"
    unfolding upt2 by (simp add: example_defs)
  have a: "\<forall>i<length [example_a1, example_a2]. ready_at example_env i < timeout
          \<and> (\<exists>rr. goroutine ?r example_env i ([example_a1, example_a2] ! i) = Inr rr)"
    by (simp add: example_defs less_Suc_eq)
  have b: "\<exists>i<length [example_a1, example_a2]. timeout \<le> ready_at example_env_refused i
          \<or> (\<exists>e. goroutine ?r example_env_refused i ([example_a1, example_a2] ! i) = Inl e)"
    by (rule exI [of _ 1]) (simp add: example_defs)
  have c: "\<exists>i<length [example_a1, example_a2]. timeout \<le> ready_at example_env_slow i
          \<or> (\<exists>e. goroutine ?r example_env_slow i ([example_a1, example_a2] ! i) = Inl e)"
    by (rule exI [of _ 0]) (simp add: example_defs)
  from Resolve_wait_for_all [OF up qu ty cands two mode order] a
  have A: "Resolve ?r example_env 0 () example_store =
     Return \<lparr> ret_msg = Some 1, ret_err = None,
              ret_store = ?s1(1 := (?s1 1)\<lparr>Answer := [example_a2, example_a1]\<rparr>),
              launched = [example_a1, example_a2] \<rparr>" by simp
  from Resolve_wait_for_all [OF up qu ty cands two mode order_r] b
  have B: "Resolve ?r example_env_refused 0 () example_store =
     Return \<lparr> ret_msg = Some 1, ret_err = None, ret_store = ?s1,
              launched = [example_a1, example_a2] \<rparr>" by blast
  from Resolve_wait_for_all [OF up qu ty cands two mode order_s] c
  have C: "Resolve ?r example_env_slow 0 () example_store =
     Return \<lparr> ret_msg = Some 1, ret_err = None, ret_store = ?s1,
              launched = [example_a1, example_a2] \<rparr>" by blast
  from A B C show ?thesis by blast
qed

section \<open>Records of another type\<close>

lemma probeFastest_candidate:
  assumes "probeFastest r env rrs = Inr first"
  shows "first \<in> set rrs"
proof (cases "sort_key (ready_at env) [0..<length rrs]")
  case Nil
  with assms show ?thesis by (simp add: probeFastest_def probe_as_map)
next
  case (Cons i "is")
  then have "i \<in> set (sort_key (ready_at env) [0..<length rrs])" by simp
  then have i: "i < length rrs" by simp
  from assms Cons have "goroutine r env i (rrs ! i) = Inr first"
    by (simp add: probeFastest_def probe_as_map split: if_splits)
  from goroutine_Inr [OF this] i show ?thesis by simp
qed

lemma probeAll_loop_candidates:
  assumes "probeAll_loop n (map (\<lambda>i. (ready_at env i, goroutine r env i (rrs ! i))) is) acc = Inr out"
    and "\<forall>i\<in>set is. i < length rrs"
  shows "set out \<subseteq> set acc \<union> set rrs \<and> length out = length acc + n"
  using assms
proof (induction "is" arbitrary: n acc)
  case Nil
  then show ?case by (cases n) auto
next
  case (Cons i "is")
  show ?case
  proof (cases n)
    case 0
    with Cons.prems show ?thesis by simp
  next
    case (Suc m)
    with Cons.prems(1) obtain rr where
      g: "goroutine r env i (rrs ! i) = Inr rr" and
      rest: "probeAll_loop m (map (\<lambda>i. (ready_at env i, goroutine r env i (rrs ! i))) is)
               (acc @ [rr]) = Inr out"
      by (auto split: if_splits sum.splits)
    from Cons.prems(2) have "\<forall>i\<in>set is. i < length rrs" by simp
    from Cons.IH [OF rest this]
    have "set out \<subseteq> set (acc @ [rr]) \<union> set rrs \<and> length out = length (acc @ [rr]) + m" .
    moreover from goroutine_Inr [OF g] Cons.prems(2) have "rr \<in> set rrs" by simp
    ultimately show ?thesis using Suc by auto
  qed
qed

lemma probeAll_candidates:
  assumes "probeAll r env rrs = Inr out"
  shows "set out \<subseteq> set rrs \<and> length out = length rrs"
proof -
  have "\<forall>i\<in>set (sort_key (ready_at env) [0..<length rrs]). i < length rrs" by simp
  from probeAll_loop_candidates [OF assms [unfolded probeAll_def probe_as_map] this]
  show ?thesis by simp
qed

text \<open>
  C8, as the program has it. With at least two records of the question's type in the
  answer, the records of another type are not candidates and are not probed: the probes
  started are exactly the candidates. When the probe round fails or runs out of time the
  store is as the wrapped resolver left it, so those records are still in the answer.
  When the probe round succeeds the Answer section is replaced by candidates only: every
  record in it is a record of the wrapped answer of the question's type, and the records
  of another type are no longer in it.
\<close>

theorem Resolve_other_records:
  assumes up: "resolver r q ci s = ((Some ap, None), s1)"
    and qu: "Question (s1 q) = question # qs"
    and ty: "Qtype question = TypeA \<or> Qtype question = TypeAAAA"
    and cands: "ipRRs = filter (\<lambda>rr. Rrtype (Header rr) = Qtype question) (Answer (s1 ap))"
    and two: "2 \<le> length ipRRs"
    and failed: "failed = (if WaitAll (opt r) then isl (probeAll r env ipRRs)
                           else isl (probeFastest r env ipRRs))"
  shows "\<exists>res. Resolve r env q ci s = Return res
           \<and> ret_msg res = Some ap \<and> ret_err res = None
           \<and> launched res = ipRRs
           \<and> (failed \<longrightarrow> ret_store res = s1)
           \<and> (\<not> failed \<longrightarrow>
                 Answer (ret_store res ap) \<noteq> []
                 \<and> (\<forall>rr\<in>set (Answer (ret_store res ap)).
                       rr \<in> set (Answer (s1 ap)) \<and> Rrtype (Header rr) = Qtype question))"
proof (cases "WaitAll (opt r)")
  case True
  show ?thesis
  proof (cases "probeAll r env ipRRs")
    case (Inl e)
    with up qu ty two True cands failed show ?thesis
      by (auto simp add: Resolve_def Let_def)
  next
    case (Inr out)
    from probeAll_candidates [OF Inr] two
    have "set out \<subseteq> set ipRRs" and "out \<noteq> []" by auto
    then have "out \<noteq> [] \<and> (\<forall>rr\<in>set out. rr \<in> set (Answer (s1 ap))
                  \<and> Rrtype (Header rr) = Qtype question)"
      using cands by auto
    moreover have "Resolve r env q ci s =
        Return \<lparr> ret_msg = Some ap, ret_err = None,
                 ret_store = s1(ap := (s1 ap)\<lparr>Answer := out\<rparr>), launched = ipRRs \<rparr>"
      using up qu ty two True cands Inr by (auto simp add: Resolve_def Let_def)
    moreover have "\<not> failed" using failed True Inr by simp
    ultimately show ?thesis by simp
  qed
next
  case False
  show ?thesis
  proof (cases "probeFastest r env ipRRs")
    case (Inl e)
    with up qu ty two False cands failed show ?thesis
      by (auto simp add: Resolve_def Let_def)
  next
    case (Inr first)
    from probeFastest_candidate [OF Inr]
    have "first \<in> set (Answer (s1 ap)) \<and> Rrtype (Header first) = Qtype question"
      using cands by auto
    moreover have "Resolve r env q ci s =
        Return \<lparr> ret_msg = Some ap, ret_err = None,
                 ret_store = s1(ap := (s1 ap)\<lparr>Answer := [first]\<rparr>), launched = ipRRs \<rparr>"
      using up qu ty two False cands Inr by (auto simp add: Resolve_def Let_def)
    moreover have "\<not> failed" using failed False Inr by simp
    ultimately show ?thesis by simp
  qed
qed

theorem Resolve_other_records_witness:
  "(case Resolve (example_fastest (example_upstream [example_cname, example_a1, example_a2]))
           example_env 0 () example_store of
      Panic pn \<Rightarrow> False
    | Return res \<Rightarrow>
        launched res = [example_a1, example_a2]
        \<and> Answer (ret_store res 1) \<noteq> []
        \<and> example_cname \<notin> set (Answer (ret_store res 1)))
   \<and> (case Resolve (example_fastest (example_upstream [example_cname, example_a1, example_a2]))
           example_env_refused 0 () example_store of
      Panic pn \<Rightarrow> False
    | Return res \<Rightarrow>
        launched res = [example_a1, example_a2]
        \<and> ret_store res =
            snd (example_upstream [example_cname, example_a1, example_a2] 0 () example_store))"
proof -
  let ?up = "example_upstream [example_cname, example_a1, example_a2]"
  let ?r = "example_fastest ?up"
  let ?s1 = "snd (?up 0 () example_store)"
  have up: "resolver ?r 0 () example_store = ((Some 1, None), ?s1)"
    by (simp add: example_defs Let_def)
  have qu: "Question (?s1 0) = example_question # []"
    by (simp add: example_defs)
  have ty: "Qtype example_question = TypeA \<or> Qtype example_question = TypeAAAA"
    by (simp add: example_defs)
  have cands: "[example_a1, example_a2] =
      filter (\<lambda>rr. Rrtype (Header rr) = Qtype example_question) (Answer (?s1 1))"
    by (simp add: example_defs)
  have two: "2 \<le> length [example_a1, example_a2]" by simp
  have ok: "False = (if WaitAll (opt ?r) then isl (probeAll ?r example_env [example_a1, example_a2])
                     else isl (probeFastest ?r example_env [example_a1, example_a2]))"
    by (simp add: probeFastest_def probe_def example_defs Let_def)
  have bad: "True = (if WaitAll (opt ?r)
                     then isl (probeAll ?r example_env_refused [example_a1, example_a2])
                     else isl (probeFastest ?r example_env_refused [example_a1, example_a2]))"
    by (simp add: probeFastest_def probe_def example_defs Let_def)
  have cn: "Rrtype (Header example_cname) \<noteq> Qtype example_question"
    by (simp add: example_defs)
  from Resolve_other_records [OF up qu ty cands two ok] obtain res where
    r1: "Resolve ?r example_env 0 () example_store = Return res"
    and r2: "launched res = [example_a1, example_a2]"
    and r3: "Answer (ret_store res 1) \<noteq> []"
    and r4: "\<forall>rr\<in>set (Answer (ret_store res 1)). Rrtype (Header rr) = Qtype example_question"
    by auto
  from r4 cn have r5: "example_cname \<notin> set (Answer (ret_store res 1))" by blast
  from Resolve_other_records [OF up qu ty cands two bad] obtain res' where
    f1: "Resolve ?r example_env_refused 0 () example_store = Return res'"
    and f2: "launched res' = [example_a1, example_a2]"
    and f3: "ret_store res' = ?s1"
    by auto
  from r1 r2 r3 r5 f1 f2 f3 show ?thesis by simp
qed

text \<open>
  C8 as stated does not hold: the answer has a record of another type and two address
  records, the probe of the second address record succeeds first, and the Answer section
  returned is that one record; the record of another type is gone.
\<close>

theorem Resolve_other_records_counterexample:
  "example_cname \<in> set (Answer (snd (example_upstream [example_cname, example_a1, example_a2]
                                       0 () example_store) 1))
   \<and> Rrtype (Header example_cname) \<noteq> Qtype example_question
   \<and> answer_of (Resolve (example_fastest (example_upstream [example_cname, example_a1, example_a2]))
                  example_env 0 () example_store) 1 = Some [example_a2]
   \<and> example_cname \<noteq> example_a2"
  by (simp add: Resolve_def Let_def probeFastest_def probe_def answer_of_def example_defs)

section \<open>What Resolve changes\<close>

text \<open>
  C10, as the program has it. A call that returns gives back the very pointer the wrapped
  resolver returned; in the store it changes nothing but the Answer section of a message,
  and no message other than the one the wrapped resolver returned. So the header, the
  question, authority and additional sections of the returned message are as the wrapped
  resolver left them, and the query message is as the wrapped resolver left it unless the
  wrapped resolver returned the query message itself as its answer.
\<close>

theorem Resolve_frame:
  assumes up: "resolver r q ci s = ((a, e), s1)"
    and ret: "Resolve r env q ci s = Return res"
  shows "ret_msg res = a
       \<and> (\<forall>p. (ret_store res p)\<lparr>Answer := Answer (s1 p)\<rparr> = s1 p)
       \<and> (\<forall>p. Some p \<noteq> a \<longrightarrow> ret_store res p = s1 p)
       \<and> (Some q \<noteq> a \<longrightarrow> ret_store res q = s1 q)"
  using up ret
  by (auto simp add: Resolve_def Let_def
      split: if_splits list.splits option.splits sum.splits)

theorem Resolve_frame_witness:
  "Resolve (example_waitall (example_upstream [example_cname, example_a1, example_a2]))
      example_env 0 () example_store =
     Return \<lparr> ret_msg = Some 1, ret_err = None,
              ret_store =
                (snd (example_upstream [example_cname, example_a1, example_a2] 0 () example_store))
                  (1 := (snd (example_upstream [example_cname, example_a1, example_a2] 0 ()
                           example_store) 1)\<lparr>Answer := [example_a2, example_a1]\<rparr>),
              launched = [example_a1, example_a2] \<rparr>
   \<and> (case Resolve (example_waitall (example_upstream [example_cname, example_a1, example_a2]))
           example_env 0 () example_store of
      Panic pn \<Rightarrow> False
    | Return res \<Rightarrow>
        ret_msg res = Some 1
        \<and> (ret_store res 1)\<lparr>Answer := [example_cname, example_a1, example_a2]\<rparr> =
            snd (example_upstream [example_cname, example_a1, example_a2] 0 () example_store) 1
        \<and> ret_store res 0 = example_query)"
proof -
  let ?up = "example_upstream [example_cname, example_a1, example_a2]"
  let ?r = "example_waitall ?up"
  let ?s1 = "snd (?up 0 () example_store)"
  let ?res = "\<lparr> ret_msg = Some 1, ret_err = None,
              ret_store = ?s1(1 := (?s1 1)\<lparr>Answer := [example_a2, example_a1]\<rparr>),
              launched = [example_a1, example_a2] \<rparr>"
  have up: "resolver ?r 0 () example_store = ((Some 1, None), ?s1)"
    by (simp add: example_defs Let_def)
  have ret: "Resolve ?r example_env 0 () example_store = Return ?res"
    by (simp add: Resolve_def Let_def probeAll_def probe_def example_defs)
  have s10: "?s1 0 = example_query" by (simp add: example_defs)
  have ans: "Answer (?s1 1) = [example_cname, example_a1, example_a2]"
    by (simp add: example_defs)
  from Resolve_frame [OF up ret]
  have "ret_msg ?res = Some 1"
    and "(ret_store ?res 1)\<lparr>Answer := Answer (?s1 1)\<rparr> = ?s1 1"
    and "ret_store ?res 0 = ?s1 0"
    by auto
  with ret s10 ans show ?thesis by simp
qed

text \<open>
  C10 as stated does not hold: when the wrapped resolver returns the query message itself
  as its answer and the probe round succeeds, the Answer section of the query message is
  replaced.
\<close>

theorem Resolve_frame_counterexample:
  "Answer ((example_store(0 := example_query\<lparr>Answer := [example_a1, example_a2]\<rparr>)) 0) =
     [example_a1, example_a2]
   \<and> answer_of (Resolve (example_fastest example_echo) example_env 0 ()
                  (example_store(0 := example_query\<lparr>Answer := [example_a1, example_a2]\<rparr>))) 0 =
       Some [example_a2]
   \<and> [example_a1, example_a2] \<noteq> [example_a2]"
  by (simp add: Resolve_def Let_def probeFastest_def probe_def answer_of_def example_defs)

section \<open>The domain blocklist on the example rules\<close>

lemmas blocklist_defs =
  example_db_def example_rules_def example_name_question_def NewDomainDB_def
  NewStaticLoader_def Reload_def Match_def matched_def lookup_def
  carries_def parse_rule_def strip_dot_def child_def Let_def

lemma example_trie:
  "build example_rules (Node [] []) =
   Inr (Node []
     [(''com'',
       Node []
        [(''domain1'', Node [\<lparr>classification = Exact, rule_id = ''domain1.com.''\<rparr>] []),
         (''domain2'',
          Node [\<lparr>classification = ExactAndSubdomains, rule_id = ''.domain2.com.''\<rparr>]
           [(''x'', Node [\<lparr>classification = Exact, rule_id = ''x.domain2.com''\<rparr>] [])]),
         (''domain3'',
          Node [\<lparr>classification = SubdomainsOnly, rule_id = ''*.domain3.com''\<rparr>]
           [(''x'',
             Node []
              [(''x'', Node [\<lparr>classification = Exact, rule_id = ''x.x.domain3.com''\<rparr>] [])])]),
         (''domain4'',
          Node [\<lparr>classification = Exact, rule_id = ''domain4.com''\<rparr>,
                \<lparr>classification = ExactAndSubdomains, rule_id = ''.domain4.com''\<rparr>]
           [])])])"
  by (simp add: blocklist_defs)


lemmas match_defs =
  example_name_question_def Match_def matched_def lookup_def carries_def
  strip_dot_def Let_def

text \<open>
  C1. The blocklist loaded from the rules \<open>domain1.com.\<close>, \<open>.domain2.com.\<close>,
  \<open>x.domain2.com\<close>, \<open>*.domain3.com\<close>, \<open>x.x.domain3.com\<close>, \<open>domain4.com\<close>,
  \<open>.domain4.com\<close> matches \<open>domain1.com.\<close>, \<open>domain2.com.\<close>, \<open>sub.domain2.com.\<close>,
  \<open>sub.domain3.com.\<close>, \<open>domain4.com.\<close> and \<open>sub.domain4.com.\<close>, and does not match
  \<open>x.domain1.com.\<close>, \<open>domain3.com.\<close>, \<open>unblocked.test.\<close> and \<open>com.\<close>. The
  subdomains-only rule does not match its own apex \<open>domain3.com.\<close>, and for the name
  \<open>x.domain2.com.\<close> the match is that of the exact rule at that name, not of the rule
  at \<open>domain2.com\<close> above it.
\<close>

theorem DomainDB_scenario:
  "(case snd (Reload example_db ()) of
      Inl e \<Rightarrow> False
    | Inr m \<Rightarrow>
        matched (Match m (example_name_question ''domain1.com.''))
        \<and> \<not> matched (Match m (example_name_question ''x.domain1.com.''))
        \<and> matched (Match m (example_name_question ''domain2.com.''))
        \<and> matched (Match m (example_name_question ''sub.domain2.com.''))
        \<and> \<not> matched (Match m (example_name_question ''domain3.com.''))
        \<and> matched (Match m (example_name_question ''sub.domain3.com.''))
        \<and> matched (Match m (example_name_question ''domain4.com.''))
        \<and> matched (Match m (example_name_question ''sub.domain4.com.''))
        \<and> \<not> matched (Match m (example_name_question ''unblocked.test.''))
        \<and> \<not> matched (Match m (example_name_question ''com.''))
        \<and> Match m (example_name_question ''x.domain2.com.'') =
            (None, [], Some \<lparr> List = ''testlist'', Rule = ''x.domain2.com'' \<rparr>, True))"
proof -
  let ?T = "Node []
     [(''com'',
       Node []
        [(''domain1'', Node [\<lparr>classification = Exact, rule_id = ''domain1.com.''\<rparr>] []),
         (''domain2'',
          Node [\<lparr>classification = ExactAndSubdomains, rule_id = ''.domain2.com.''\<rparr>]
           [(''x'', Node [\<lparr>classification = Exact, rule_id = ''x.domain2.com''\<rparr>] [])]),
         (''domain3'',
          Node [\<lparr>classification = SubdomainsOnly, rule_id = ''*.domain3.com''\<rparr>]
           [(''x'',
             Node []
              [(''x'', Node [\<lparr>classification = Exact, rule_id = ''x.x.domain3.com''\<rparr>] [])])]),
         (''domain4'',
          Node [\<lparr>classification = Exact, rule_id = ''domain4.com''\<rparr>,
                \<lparr>classification = ExactAndSubdomains, rule_id = ''.domain4.com''\<rparr>]
           [])])]"
  let ?m = "\<lparr> name = ''testlist'', root = ?T,
             loader = (NewStaticLoader example_rules :: unit Loader) \<rparr>"
  have reload: "snd (Reload example_db ()) = Inr ?m"
    using example_trie
    by (simp add: Reload_def example_db_def NewDomainDB_def NewStaticLoader_def)
  have q1: "matched (Match ?m (example_name_question ''domain1.com.''))"
    by (simp add: match_defs)
  have q2: "\<not> matched (Match ?m (example_name_question ''x.domain1.com.''))"
    by (simp add: match_defs)
  have q3: "matched (Match ?m (example_name_question ''domain2.com.''))"
    by (simp add: match_defs)
  have q4: "matched (Match ?m (example_name_question ''sub.domain2.com.''))"
    by (simp add: match_defs)
  have q5: "\<not> matched (Match ?m (example_name_question ''domain3.com.''))"
    by (simp add: match_defs)
  have q6: "matched (Match ?m (example_name_question ''sub.domain3.com.''))"
    by (simp add: match_defs)
  have q7: "matched (Match ?m (example_name_question ''domain4.com.''))"
    by (simp add: match_defs)
  have q8: "matched (Match ?m (example_name_question ''sub.domain4.com.''))"
    by (simp add: match_defs)
  have q9: "\<not> matched (Match ?m (example_name_question ''unblocked.test.''))"
    by (simp add: match_defs)
  have q10: "\<not> matched (Match ?m (example_name_question ''com.''))"
    by (simp add: match_defs)
  have q11: "Match ?m (example_name_question ''x.domain2.com.'') =
            (None, [], Some \<lparr> List = ''testlist'', Rule = ''x.domain2.com'' \<rparr>, True)"
    by (simp add: match_defs)
  from q1 q2 q3 q4 q5 q6 q7 q8 q9 q10 q11 show ?thesis
    unfolding reload by simp
qed

section \<open>Reloading with an invalid pattern\<close>

lemma build_invalid:
  assumes "p \<in> set raws" and "parse_rule p = Inl e"
  shows "\<exists>e'. build raws n = Inl e'"
  using assms
proof (induction raws arbitrary: n)
  case Nil
  then show ?case by simp
next
  case (Cons raw raws)
  show ?case
  proof (cases "parse_rule raw")
    case (Inl e')
    then show ?thesis by simp
  next
    case (Inr cl)
    with Cons.prems have "p \<in> set raws" by auto
    from Cons.IH [OF this Cons.prems(2)] Inr show ?thesis by simp
  qed
qed

lemma parse_rule_wildcard_not_leading:
  assumes "CHR ''*'' \<in> set (tl (strip_dot p))"
  shows "\<exists>e. parse_rule p = Inl e"
proof -
  let ?s = "strip_dot p"
  from assms have tl: "CHR ''*'' \<in> set (drop 1 ?s)" by (simp add: drop_Suc)
  have "CHR ''*'' \<in> set (drop 2 ?s)" if "take 2 ?s = ''*.''"
  proof -
    from that obtain cs where "?s = CHR ''*'' # CHR ''.'' # cs"
      by (cases ?s; cases "tl ?s") auto
    with tl show ?thesis by auto
  qed
  moreover have "CHR ''*'' \<in> set ?s" using assms by (cases ?s) auto
  ultimately show ?thesis using tl by (auto simp add: parse_rule_def Let_def)
qed

lemma parse_rule_malformed_wildcard:
  assumes "strip_dot p = CHR ''*'' # cs" and "take 1 cs \<noteq> ''.''"
  shows "\<exists>e. parse_rule p = Inl e"
  using assms by (cases cs) (auto simp add: parse_rule_def Let_def)

text \<open>
  C2. If the loader's current output holds a pattern with a wildcard that is not in
  leading position, or that starts with a wildcard not followed by a dot, \<open>Reload\<close>
  returns an error, and the instance it was called on is as it was: it answers \<open>Match\<close>
  as before the call.
\<close>

theorem Reload_invalid_pattern:
  assumes "p \<in> set (loader db w)"
    and "CHR ''*'' \<in> set (tl (strip_dot p))
         \<or> (\<exists>cs. strip_dot p = CHR ''*'' # cs \<and> take 1 cs \<noteq> ''.'')"
  shows "(\<exists>e. snd (Reload db w) = Inl e)
       \<and> fst (Reload db w) = db
       \<and> Match (fst (Reload db w)) q = Match db q"
proof -
  from assms(2) obtain e where "parse_rule p = Inl e"
    using parse_rule_wildcard_not_leading parse_rule_malformed_wildcard by blast
  from build_invalid [OF assms(1) this] obtain e' where
    "build (loader db w) (Node [] []) = Inl e'" by blast
  then show ?thesis by (simp add: Reload_def)
qed

theorem Reload_invalid_pattern_witness:
  "(case snd (Reload (NewDomainDB ''testlist'' example_source) 0) of
      Inl e \<Rightarrow> False
    | Inr m \<Rightarrow>
        isl (snd (Reload m 1)) \<and> fst (Reload m 1) = m
        \<and> Match (fst (Reload m 1)) (example_name_question ''sub.domain2.com.'') =
            Match m (example_name_question ''sub.domain2.com.'')
        \<and> isl (snd (Reload m 2)) \<and> fst (Reload m 2) = m
        \<and> Match (fst (Reload m 2)) (example_name_question ''sub.domain2.com.'') =
            Match m (example_name_question ''sub.domain2.com.''))"
proof -
  from example_trie obtain t where t: "build example_rules (Node [] []) = Inr t" by blast
  let ?m = "\<lparr> name = ''testlist'', root = t, loader = example_source \<rparr>"
  let ?q = "example_name_question ''sub.domain2.com.''"
  have reload: "snd (Reload (NewDomainDB ''testlist'' example_source) 0) = Inr ?m"
    using t by (simp add: Reload_def NewDomainDB_def example_source_def)
  have in1: "''sub.*.com'' \<in> set (loader ?m 1)"
    by (simp add: example_source_def)
  have bad1: "CHR ''*'' \<in> set (tl (strip_dot ''sub.*.com''))
         \<or> (\<exists>cs. strip_dot ''sub.*.com'' = CHR ''*'' # cs \<and> take 1 cs \<noteq> ''.'')"
    by (simp add: strip_dot_def)
  have in2: "''*domain.com'' \<in> set (loader ?m 2)"
    by (simp add: example_source_def)
  have bad2: "CHR ''*'' \<in> set (tl (strip_dot ''*domain.com''))
         \<or> (\<exists>cs. strip_dot ''*domain.com'' = CHR ''*'' # cs \<and> take 1 cs \<noteq> ''.'')"
    by (simp add: strip_dot_def)
  from Reload_invalid_pattern [OF in1 bad1, of ?q]
  have A: "isl (snd (Reload ?m 1)) \<and> fst (Reload ?m 1) = ?m
           \<and> Match (fst (Reload ?m 1)) ?q = Match ?m ?q"
    by auto
  from Reload_invalid_pattern [OF in2 bad2, of ?q]
  have B: "isl (snd (Reload ?m 2)) \<and> fst (Reload ?m 2) = ?m
           \<and> Match (fst (Reload ?m 2)) ?q = Match ?m ?q"
    by auto
  from A B show ?thesis unfolding reload by simp
qed

end
